theory Spec2Isabelle
  imports Main "HOL-Library.Word"
begin

unbundle bit_operations_syntax

section \<open>The byte sink behind a Writer\<close>

text \<open>
  A \<^verbatim>\<open>Writer\<close> wraps one value \<^verbatim>\<open>w\<close> that is both an \<^verbatim>\<open>io.Writer\<close> and an
  \<^verbatim>\<open>io.ByteWriter\<close>. Every method of writer.go discards the error those two return
  (\<^verbatim>\<open>_ = w.w.WriteByte(..)\<close>, \<^verbatim>\<open>_, _ = w.w.Write(..)\<close>), so the sink is modelled as the
  growable buffer of section 3 of the specification: the state of a Writer is the list
  of bytes written so far, and both operations append to it.
\<close>

type_synonym byte = "8 word"

definition WriteByte :: "byte \<Rightarrow> byte list \<Rightarrow> byte list" where
  "WriteByte c buf = buf @ [c]"

definition Write :: "byte list \<Rightarrow> byte list \<Rightarrow> byte list" where
  "Write p buf = buf @ p"

section \<open>Variable-length integers\<close>

text \<open>
  \<^verbatim>\<open>int32\<close> and \<^verbatim>\<open>uint32\<close> are both \<^typ>\<open>32 word\<close>: the conversion \<^verbatim>\<open>uint32(u)\<close> keeps the
  bit pattern. The signed comparison \<^verbatim>\<open>u < 0\<close> is \<open><s\<close>, the unsigned \<^verbatim>\<open>ux >= 0x80\<close> is
  \<open>\<le>\<close>, \<^verbatim>\<open>byte(ux)\<close> is \<^const>\<open>ucast\<close> (the low eight bits), \<^verbatim>\<open>ux >>= 7\<close> is
  \<^const>\<open>drop_bit\<close>. Each \<^verbatim>\<open>for\<close> loop is a recursive function on the loop variable and
  the buffer; it terminates because the shift makes the variable smaller.
\<close>

function Varint64_loop :: "64 word \<Rightarrow> byte list \<Rightarrow> byte list" where
  "Varint64_loop ux buf =
     (if 0x80 \<le> ux then Varint64_loop (drop_bit 7 ux) (WriteByte (ucast ux OR 0x80) buf)
      else WriteByte (ucast ux) buf)"
  by pat_completeness auto
termination
  apply (relation "measure (\<lambda>(ux, buf). unat ux)")
   apply simp
  apply (simp only: in_measure prod.case unat_drop_bit_eq)
  apply (simp add: drop_bit_eq_div word_le_nat_alt)
  done

definition Varint64 :: "64 word \<Rightarrow> byte list \<Rightarrow> byte list" where
  "Varint64 x buf =
     (let u = x;
          ux = push_bit 1 u;
          ux = (if u <s 0 then NOT ux else ux)
      in Varint64_loop ux buf)"

function Varuint64 :: "64 word \<Rightarrow> byte list \<Rightarrow> byte list" where
  "Varuint64 u buf =
     (if 0x80 \<le> u then Varuint64 (drop_bit 7 u) (WriteByte (ucast u OR 0x80) buf)
      else WriteByte (ucast u) buf)"
  by pat_completeness auto
termination
  apply (relation "measure (\<lambda>(u, buf). unat u)")
   apply simp
  apply (simp only: in_measure prod.case unat_drop_bit_eq)
  apply (simp add: drop_bit_eq_div word_le_nat_alt)
  done

function Varint32_loop :: "32 word \<Rightarrow> byte list \<Rightarrow> byte list" where
  "Varint32_loop ux buf =
     (if 0x80 \<le> ux then Varint32_loop (drop_bit 7 ux) (WriteByte (ucast ux OR 0x80) buf)
      else WriteByte (ucast ux) buf)"
  by pat_completeness auto
termination
  apply (relation "measure (\<lambda>(ux, buf). unat ux)")
   apply simp
  apply (simp only: in_measure prod.case unat_drop_bit_eq)
  apply (simp add: drop_bit_eq_div word_le_nat_alt)
  done

definition Varint32 :: "32 word \<Rightarrow> byte list \<Rightarrow> byte list" where
  "Varint32 x buf =
     (let u = x;
          ux = push_bit 1 u;
          ux = (if u <s 0 then NOT ux else ux)
      in Varint32_loop ux buf)"

function Varuint32 :: "32 word \<Rightarrow> byte list \<Rightarrow> byte list" where
  "Varuint32 u buf =
     (if 0x80 \<le> u then Varuint32 (drop_bit 7 u) (WriteByte (ucast u OR 0x80) buf)
      else WriteByte (ucast u) buf)"
  by pat_completeness auto
termination
  apply (relation "measure (\<lambda>(u, buf). unat u)")
   apply simp
  apply (simp only: in_measure prod.case unat_drop_bit_eq)
  apply (simp add: drop_bit_eq_div word_le_nat_alt)
  done

declare Varint64_loop.simps [simp del] Varuint64.simps [simp del]
  Varint32_loop.simps [simp del] Varuint32.simps [simp del]

section \<open>Fixed-width and composite primitives\<close>

definition Uint8 :: "byte \<Rightarrow> byte list \<Rightarrow> byte list" where
  "Uint8 x buf = WriteByte x buf"

text \<open>
  A Go string is a sequence of bytes and \<^verbatim>\<open>len\<close> counts bytes; \<^typ>\<open>string\<close> is a list of
  eight-bit characters, \<^verbatim>\<open>[]byte(*x)\<close> is \<open>map of_char\<close>, and \<^verbatim>\<open>uint32(len(*x))\<close> keeps the
  length modulo \<open>2 ^ 32\<close>.
\<close>

definition String :: "string \<Rightarrow> byte list \<Rightarrow> byte list" where
  "String x buf =
     (let l = (word_of_nat (length x) :: 32 word);
          buf = Varuint32 l buf
      in Write (map of_char x) buf)"

text \<open>\<^verbatim>\<open>BlockPos\<close> is indexed at 0, 1 and 2 and each component is handed to \<^verbatim>\<open>Varint32\<close>:
  three \<^verbatim>\<open>int32\<close> values.\<close>

type_synonym BlockPos = "32 word \<times> 32 word \<times> 32 word"

definition BlockPos :: "BlockPos \<Rightarrow> byte list \<Rightarrow> byte list" where
  "BlockPos x buf =
     (case x of (x0, x1, x2) \<Rightarrow>
        let buf = Varint32 x0 buf;
            buf = Varint32 x1 buf
        in Varint32 x2 buf)"

definition UBlockPos :: "BlockPos \<Rightarrow> byte list \<Rightarrow> byte list" where
  "UBlockPos x buf =
     (case x of (x0, x1, x2) \<Rightarrow>
        let buf = Varint32 x0 buf;
            y = (x1 :: 32 word);
            buf = Varuint32 y buf
        in Varint32 x2 buf)"

section \<open>Declarations of the package that writer.go relies on\<close>

text \<open>
  A value of type \<^verbatim>\<open>interface{}\<close> carries a dynamic type. The type switch of
  \<^verbatim>\<open>EntityMetadata\<close> names nine of them; \<open>GoOther\<close> stands for a value of any other
  dynamic type (the nil interface included) and holds what \<^verbatim>\<open>%v\<close> prints for
  \<^verbatim>\<open>reflect.TypeOf(value)\<close>. A \<^verbatim>\<open>float32\<close> is its 32 bits. A \<^verbatim>\<open>map[string]interface{}\<close> is the
  list of its entries, empty for the nil map, so that \<^verbatim>\<open>len\<close> is \<^const>\<open>length\<close>.
\<close>

type_synonym Vec3 = "32 word \<times> 32 word \<times> 32 word"

datatype go_value =
    GoByte byte
  | GoInt16 "16 word"
  | GoInt32 "32 word"
  | GoFloat32 "32 word"
  | GoString string
  | GoMap "(string \<times> go_value) list"
  | GoBlockPos BlockPos
  | GoInt64 "64 word"
  | GoVec3 Vec3
  | GoOther string

text \<open>A Go \<^verbatim>\<open>error\<close> is modelled by its message. A panic is the \<open>Inl\<close> of a result.\<close>

datatype error = Error string

text \<open>The encodings of package \<^verbatim>\<open>nbt\<close>; writer.go names \<^verbatim>\<open>nbt.NetworkLittleEndian\<close> only.\<close>

datatype Encoding = NetworkLittleEndian | LittleEndian | BigEndian

text \<open>
  writer.go calls two methods of \<^verbatim>\<open>Writer\<close> that are declared in another file of the
  package (\<^verbatim>\<open>Int16\<close>, \<^verbatim>\<open>Float32\<close>), the encoder of package \<^verbatim>\<open>nbt\<close>, and nine type
  constants \<^verbatim>\<open>entityData...\<close>. They are parameters of the model. A method of a Writer can
  reach the sink through \<^verbatim>\<open>Write\<close> and \<^verbatim>\<open>WriteByte\<close> only, so each absent method is given
  by the bytes it appends. The encoder either returns an error, which \<^verbatim>\<open>Writer.NBT\<close>
  turns into a panic, or has written the bytes of the record.
\<close>

record env =
  Int16_bytes :: "16 word \<Rightarrow> byte list"
  Float32_bytes :: "32 word \<Rightarrow> byte list"
  nbt_Encode :: "Encoding \<Rightarrow> go_value \<Rightarrow> error + byte list"
  entityDataByte :: "32 word"
  entityDataInt16 :: "32 word"
  entityDataInt32 :: "32 word"
  entityDataFloat32 :: "32 word"
  entityDataString :: "32 word"
  entityDataCompoundTag :: "32 word"
  entityDataBlockPos :: "32 word"
  entityDataInt64 :: "32 word"
  entityDataVec3 :: "32 word"

definition Int16 :: "env \<Rightarrow> 16 word \<Rightarrow> byte list \<Rightarrow> byte list" where
  "Int16 ext x buf = Write (Int16_bytes ext x) buf"

definition Float32 :: "env \<Rightarrow> 32 word \<Rightarrow> byte list \<Rightarrow> byte list" where
  "Float32 ext x buf = Write (Float32_bytes ext x) buf"

definition Vec3 :: "env \<Rightarrow> Vec3 \<Rightarrow> byte list \<Rightarrow> byte list" where
  "Vec3 ext x buf =
     (case x of (x0, x1, x2) \<Rightarrow>
        let buf = Float32 ext x0 buf;
            buf = Float32 ext x1 buf
        in Float32 ext x2 buf)"

section \<open>Panics\<close>

definition panicf :: "string \<Rightarrow> error + 'a" where
  "panicf msg = Inl (Error msg)"

text \<open>The two arguments are what \<^verbatim>\<open>%v\<close> prints for \<^verbatim>\<open>value\<close> and for \<^verbatim>\<open>enum\<close>.\<close>

definition UnknownEnumOption :: "string \<Rightarrow> string \<Rightarrow> error + 'a" where
  "UnknownEnumOption v enum =
     panicf (''unknown value '' @ [CHR 0x27] @ v @ [CHR 0x27] @
             '' for enum type '' @ [CHR 0x27] @ enum @ [CHR 0x27])"

definition InvalidValue :: "string \<Rightarrow> string \<Rightarrow> string \<Rightarrow> error + 'a" where
  "InvalidValue v forField reason =
     panicf (''invalid value '' @ [CHR 0x27] @ v @ [CHR 0x27] @
             '' for '' @ forField @ '': '' @ reason)"

definition NBT :: "env \<Rightarrow> (string \<times> go_value) list \<Rightarrow> Encoding \<Rightarrow> byte list \<Rightarrow> error + byte list" where
  "NBT ext x encoding buf =
     (case nbt_Encode ext encoding (GoMap x) of
        Inl err \<Rightarrow> Inl err
      | Inr bs \<Rightarrow> Inr (Write bs buf))"

section \<open>Entity metadata\<close>

text \<open>
  \<^verbatim>\<open>range\<close> visits the entries of a Go map in an order the language leaves open. The
  map is given as the list of its entries in the order of the visit; a statement about
  every list is a statement about every order. The loop stops at the first panic.
\<close>

definition EntityMetadata_body :: "env \<Rightarrow> 32 word \<Rightarrow> go_value \<Rightarrow> byte list \<Rightarrow> error + byte list" where
  "EntityMetadata_body ext key val buf0 =
     (let buf = Varuint32 key buf0 in
      case val of
        GoByte v \<Rightarrow> Inr (Uint8 v (Varuint32 (entityDataByte ext) buf))
      | GoInt16 v \<Rightarrow> Inr (Int16 ext v (Varuint32 (entityDataInt16 ext) buf))
      | GoInt32 v \<Rightarrow> Inr (Varint32 v (Varuint32 (entityDataInt32 ext) buf))
      | GoFloat32 v \<Rightarrow> Inr (Float32 ext v (Varuint32 (entityDataFloat32 ext) buf))
      | GoString v \<Rightarrow> Inr (String v (Varuint32 (entityDataString ext) buf))
      | GoMap v \<Rightarrow> NBT ext v NetworkLittleEndian (Varuint32 (entityDataCompoundTag ext) buf)
      | GoBlockPos v \<Rightarrow> Inr (BlockPos v (Varuint32 (entityDataBlockPos ext) buf))
      | GoInt64 v \<Rightarrow> Inr (Varint64 v (Varuint32 (entityDataInt64 ext) buf))
      | GoVec3 v \<Rightarrow> Inr (Vec3 ext v (Varuint32 (entityDataVec3 ext) buf))
      | GoOther ty \<Rightarrow> UnknownEnumOption ty ''entity metadata'')"

fun EntityMetadata_loop :: "env \<Rightarrow> (32 word \<times> go_value) list \<Rightarrow> byte list \<Rightarrow> error + byte list" where
  "EntityMetadata_loop ext [] buf = Inr buf"
| "EntityMetadata_loop ext ((key, val) # rest) buf =
     (case EntityMetadata_body ext key val buf of
        Inl err \<Rightarrow> Inl err
      | Inr buf' \<Rightarrow> EntityMetadata_loop ext rest buf')"

definition EntityMetadata :: "env \<Rightarrow> (32 word \<times> go_value) list \<Rightarrow> byte list \<Rightarrow> error + byte list" where
  "EntityMetadata ext x buf =
     (let l = (word_of_nat (length x) :: 32 word);
          buf = Varuint32 l buf
      in EntityMetadata_loop ext x buf)"

section \<open>Item stacks\<close>

text \<open>
  Modelled from the spec: the declaration of \<^verbatim>\<open>ItemStack\<close> is in another file of the
  package. Section 3 of the specification gives its fields: \<^verbatim>\<open>NetworkID\<close> an \<^verbatim>\<open>int32\<close>,
  \<^verbatim>\<open>MetadataValue\<close> and \<^verbatim>\<open>Count\<close> signed integers, an optional nested record, and two
  sequences of strings. The widths of \<^verbatim>\<open>MetadataValue\<close> and \<^verbatim>\<open>Count\<close> are left open:
  \<^verbatim>\<open>Item\<close> below takes any two word types. The shift \<^verbatim>\<open>x.MetadataValue<<8\<close> happens at the
  width of \<^verbatim>\<open>MetadataValue\<close>, and \<^verbatim>\<open>int32(..)\<close> of a signed integer is \<^const>\<open>scast\<close>: it
  extends the sign of a narrower value and truncates a wider one.
\<close>

record ('m, 'c) ItemStack =
  NetworkID :: "32 word"
  MetadataValue :: 'm
  Count :: 'c
  NBTData :: "(string \<times> go_value) list"
  CanBePlacedOn :: "string list"
  CanBreak :: "string list"

definition shieldID :: "32 word" where
  "shieldID = 513"

definition Item :: "env \<Rightarrow> ('m::len word, 'c::len word) ItemStack \<Rightarrow> byte list \<Rightarrow> error + byte list" where
  "Item ext x buf0 =
     (let buf = Varint32 (NetworkID x) buf0 in
      if NetworkID x = 0 then Inr buf
      else
        let aux = (scast (push_bit 8 (MetadataValue x)) OR scast (Count x) :: 32 word);
            buf = Varint32 aux buf
        in case (if length (NBTData x) \<noteq> 0 then
                   let userDataMarker = (- 1 :: 16 word);
                       userDataVer = (1 :: byte);
                       buf = Int16 ext userDataMarker buf;
                       buf = Uint8 userDataVer buf
                   in NBT ext (NBTData x) NetworkLittleEndian buf
                 else
                   let userDataMarker = (0 :: 16 word)
                   in Inr (Int16 ext userDataMarker buf)) of
             Inl err \<Rightarrow> Inl err
           | Inr buf \<Rightarrow>
               let placeOnLen = (word_of_nat (length (CanBePlacedOn x)) :: 32 word);
                   canBreak = (word_of_nat (length (CanBreak x)) :: 32 word);
                   buf = Varint32 placeOnLen buf;
                   buf = fold String (CanBePlacedOn x) buf;
                   buf = Varint32 canBreak buf;
                   buf = fold String (CanBreak x) buf
               in if NetworkID x = shieldID then
                    let blockingTick = (0 :: 64 word)
                    in Inr (Varint64 blockingTick buf)
                  else Inr buf)"

section \<open>Arrays, slices and the identifier\<close>

text \<open>
  \<^verbatim>\<open>uuid.UUID\<close> is the array type \<^verbatim>\<open>[16]byte\<close>, and \<^verbatim>\<open>UUID\<close> receives a pointer to one. The
  method slices that array, appends and then swaps elements of the result in place, so
  arrays live in a store: the array at address \<open>a\<close> is \<open>h ! a\<close>, and allocation
  adds an array at the end of the store. A slice is a window on an array: the
  address of the array, the offset of the window, its length and its capacity.
\<close>

type_synonym addr = nat
type_synonym heap = "byte list list"

record slice =
  s_arr :: addr
  s_off :: nat
  s_len :: nat
  s_cap :: nat

text \<open>\<^verbatim>\<open>a[lo:hi]\<close> on an array of \<open>n\<close> elements: the capacity runs to the end of the array.\<close>

definition slice_array :: "addr \<Rightarrow> nat \<Rightarrow> nat \<Rightarrow> nat \<Rightarrow> slice" where
  "slice_array a n lo hi = \<lparr>s_arr = a, s_off = lo, s_len = hi - lo, s_cap = n - lo\<rparr>"

definition slice_elems :: "heap \<Rightarrow> slice \<Rightarrow> byte list" where
  "slice_elems h s = take (s_len s) (drop (s_off s) (h ! s_arr s))"

text \<open>
  \<^verbatim>\<open>append(s, elems...)\<close>: when the capacity of \<open>s\<close> has room for the new elements they are
  written into the array of \<open>s\<close>, after its window; otherwise a new array is allocated
  and receives the elements of \<open>s\<close> followed by the new ones. (The runtime may give the
  new array spare capacity; \<^verbatim>\<open>UUID\<close> never appends to the result again, so the new array
  is modelled without any.)
\<close>

definition go_append :: "heap \<Rightarrow> slice \<Rightarrow> byte list \<Rightarrow> heap \<times> slice" where
  "go_append h s elems =
     (let n = s_len s + length elems in
      if n \<le> s_cap s then
        let a = h ! s_arr s;
            a' = take (s_off s + s_len s) a @ elems @ drop (s_off s + n) a
        in (h[s_arr s := a'], s\<lparr>s_len := n\<rparr>)
      else
        (h @ [slice_elems h s @ elems],
         \<lparr>s_arr = length h, s_off = 0, s_len = n, s_cap = n\<rparr>))"

text \<open>Indexing a slice outside its length is a run-time panic.\<close>

definition index_get :: "heap \<Rightarrow> slice \<Rightarrow> int \<Rightarrow> error + byte" where
  "index_get h s i =
     (if 0 \<le> i \<and> i < int (s_len s) then Inr ((h ! s_arr s) ! (s_off s + nat i))
      else Inl (Error ''index out of range''))"

definition index_set :: "heap \<Rightarrow> slice \<Rightarrow> int \<Rightarrow> byte \<Rightarrow> error + heap" where
  "index_set h s i v =
     (if 0 \<le> i \<and> i < int (s_len s) then Inr (h[s_arr s := (h ! s_arr s)[s_off s + nat i := v]])
      else Inl (Error ''index out of range''))"

text \<open>
  The loop \<^verbatim>\<open>for i, j := 0, 15; i < j; i, j = i+1, j-1\<close>. The assignment
  \<^verbatim>\<open>b[i], b[j] = b[j], b[i]\<close> reads both operands before it writes either.
\<close>

function UUID_loop :: "int \<Rightarrow> int \<Rightarrow> slice \<Rightarrow> heap \<Rightarrow> error + heap" where
  "UUID_loop i j b h =
     (if i < j then
        (case index_get h b j of
           Inl err \<Rightarrow> Inl err
         | Inr vj \<Rightarrow>
        (case index_get h b i of
           Inl err \<Rightarrow> Inl err
         | Inr vi \<Rightarrow>
        (case index_set h b i vj of
           Inl err \<Rightarrow> Inl err
         | Inr h1 \<Rightarrow>
        (case index_set h1 b j vi of
           Inl err \<Rightarrow> Inl err
         | Inr h2 \<Rightarrow> UUID_loop (i + 1) (j - 1) b h2))))
      else Inr h)"
  by pat_completeness auto
termination
  by (relation "measure (\<lambda>(i, j, b, h). nat (j - i))") auto

declare UUID_loop.simps [simp del]

text \<open>
  \<open>x\<close> is the address of the identifier's array in the store \<open>h\<close>: a pointer that is
  not nil, to an array of 16 bytes (\<open>x < length h\<close> and \<open>length (h ! x) = 16\<close>). The
  result is the store and the sink after the call.
\<close>

definition UUID :: "addr \<Rightarrow> heap \<Rightarrow> byte list \<Rightarrow> error + heap \<times> byte list" where
  "UUID x h buf =
     (case go_append h (slice_array x 16 8 16) (slice_elems h (slice_array x 16 0 8)) of
        (h, b) \<Rightarrow>
          (case UUID_loop 0 15 b h of
             Inl err \<Rightarrow> Inl err
           | Inr h \<Rightarrow> Inr (h, Write (slice_elems h b) buf)))"

section \<open>The encodings in the words of the specification\<close>

text \<open>
  Section 4.1: an unsigned varint emits the low seven bits of the value with the high
  bit of the byte set while more bytes follow, and clear on the last byte.
\<close>

fun leb128 :: "nat \<Rightarrow> byte list" where
  "leb128 n = (if n < 128 then [of_nat n] else of_nat (n mod 128 + 128) # leb128 (n div 128))"

declare leb128.simps [simp del]

text \<open>
  Section 4.1: the zig-zag transform shifts the value left by one bit and complements
  the result when the value was negative. On the integers it sends \<open>0, -1, 1, -2, ...\<close>
  to \<open>0, 1, 2, 3, ...\<close>.
\<close>

definition zigzag :: "'a::len word \<Rightarrow> 'a word" where
  "zigzag x = (if sint x < 0 then NOT (push_bit 1 x) else push_bit 1 x)"

definition zigzag_int :: "int \<Rightarrow> nat" where
  "zigzag_int k = (if k < 0 then nat (- 2 * k - 1) else nat (2 * k))"

text \<open>
  Section 4.3, field by field. The aux word is \<^verbatim>\<open>int32(x.MetadataValue<<8) | int32(x.Count)\<close>.
  The nested-record field is the marker \<open>-1\<close>, the version byte and the record, or the
  marker \<open>0\<close> alone; it has no bytes when the encoder fails. A sequence of strings is a
  length prefix followed by the strings; the encoder of the prefix is a parameter, so
  that the same words describe a signed and an unsigned prefix.
\<close>

definition Item_aux :: "('m::len word, 'c::len word) ItemStack \<Rightarrow> 32 word" where
  "Item_aux x = scast (push_bit 8 (MetadataValue x)) OR scast (Count x)"

definition Item_userData :: "env \<Rightarrow> ('m, 'c) ItemStack \<Rightarrow> error + byte list" where
  "Item_userData ext x =
     (if NBTData x \<noteq> [] then
        (case nbt_Encode ext NetworkLittleEndian (GoMap (NBTData x)) of
           Inl err \<Rightarrow> Inl err
         | Inr bs \<Rightarrow> Inr (Int16_bytes ext (- 1) @ [0x01] @ bs))
      else Inr (Int16_bytes ext 0))"

definition string_seq :: "(32 word \<Rightarrow> byte list \<Rightarrow> byte list) \<Rightarrow> string list \<Rightarrow> byte list" where
  "string_seq enc xs = enc (word_of_nat (length xs)) [] @ concat (map (\<lambda>s. String s []) xs)"

text \<open>Fields 1 to 5 of an item stack that is not empty, and fields 4 to 6.\<close>

definition Item_fields :: "('m::len word, 'c::len word) ItemStack \<Rightarrow> byte list \<Rightarrow> byte list" where
  "Item_fields x ud =
     Varint32 (NetworkID x) [] @ Varint32 (Item_aux x) [] @ ud @
     string_seq Varint32 (CanBePlacedOn x) @ string_seq Varint32 (CanBreak x)"

definition Item_tail :: "('m, 'c) ItemStack \<Rightarrow> byte list" where
  "Item_tail x =
     string_seq Varint32 (CanBePlacedOn x) @ string_seq Varint32 (CanBreak x) @
     (if NetworkID x = shieldID then Varint64 0 [] else [])"

text \<open>Section 4.2: the nine known shapes of an attribute value.\<close>

definition known_variant :: "go_value \<Rightarrow> bool" where
  "known_variant v = (case v of GoOther ty \<Rightarrow> False | _ \<Rightarrow> True)"

text \<open>Section 4.1: the two halves of eight bytes are swapped, then all sixteen bytes
  are reversed.\<close>

definition wire_order :: "'a list \<Rightarrow> 'a list" where
  "wire_order u = rev (drop 8 u @ take 8 u)"

section \<open>An instance of the parameters\<close>

text \<open>
  To run the model on concrete values the parameters need values too: little-endian
  fixed-width writers, the type constants \<open>0\<close> to \<open>8\<close>, and an encoder that writes an
  empty compound for the empty map, a compound of one byte tag for a map that starts
  with a byte, and fails on anything else.
\<close>

definition le16 :: "16 word \<Rightarrow> byte list" where
  "le16 v = [ucast v, ucast (drop_bit 8 v)]"

definition le32 :: "32 word \<Rightarrow> byte list" where
  "le32 v = [ucast v, ucast (drop_bit 8 v), ucast (drop_bit 16 v), ucast (drop_bit 24 v)]"

definition example_Encode :: "Encoding \<Rightarrow> go_value \<Rightarrow> error + byte list" where
  "example_Encode enc v =
     (case v of
        GoMap [] \<Rightarrow> Inr [0x0a, 0x00, 0x00]
      | GoMap ((k, GoByte b) # rest) \<Rightarrow> Inr ([0x0a, 0x00, 0x01] @ String k [] @ [b, 0x00])
      | _ \<Rightarrow> Inl (Error ''unsupported''))"

definition example_env :: env where
  "example_env =
     \<lparr>Int16_bytes = le16, Float32_bytes = le32, nbt_Encode = example_Encode,
      entityDataByte = 0, entityDataInt16 = 1, entityDataInt32 = 2, entityDataFloat32 = 3,
      entityDataString = 4, entityDataCompoundTag = 5, entityDataBlockPos = 6,
      entityDataInt64 = 7, entityDataVec3 = 8\<rparr>"

section \<open>Varints: the loops emit LEB128\<close>

lemma bit_0x80: "bit (0x80::byte) n \<longleftrightarrow> n = 7"
proof -
  have "bit (push_bit 7 1 :: byte) n \<longleftrightarrow> n = 7"
    by (auto simp only: bit_push_bit_iff bit_1_iff possible_bit_word len_bit0 len_num1)
  then show ?thesis by simp
qed

lemma take7_or: "take_bit 7 (x::byte) OR 0x80 = x OR 0x80"
proof (rule bit_word_eqI)
  fix n assume "n < LENGTH(8)"
  then show "bit (take_bit 7 x OR 0x80) n = bit (x OR 0x80) n"
    unfolding bit_or_iff bit_take_bit_iff bit_0x80 by auto
qed

lemma take7_plus: "take_bit 7 (x::byte) + 0x80 = take_bit 7 x OR 0x80"
proof (rule disjunctive_add)
  fix n show "\<not> bit (take_bit 7 x) n \<or> \<not> bit (0x80::byte) n"
    unfolding bit_take_bit_iff bit_0x80 by auto
qed

lemma of_nat_mod128: "(word_of_nat (n mod 128) :: byte) = take_bit 7 (word_of_nat n)"
  by (rule bit_word_eqI)
    (auto simp add: bit_simps take_bit_eq_mod[symmetric, where n=7, simplified])

lemma continuation_byte:
  "(ucast (u :: 'a::len word) OR (0x80::byte)) = of_nat (unat u mod 128 + 128)"
proof -
  have "(of_nat (unat u mod 128 + 128) :: byte) = take_bit 7 (ucast u) + 0x80"
    by (simp add: of_nat_mod128)
  also have "\<dots> = ucast u OR 0x80"
    by (simp only: take7_plus take7_or)
  finally show ?thesis by simp
qed

lemma unat_shr7: "unat (drop_bit 7 (u::'a::len word)) = unat u div 128"
  unfolding unat_drop_bit_eq by (simp add: drop_bit_eq_div)

lemma Varuint32_leb128: "Varuint32 u buf = buf @ leb128 (unat u)"
proof (induction u buf rule: Varuint32.induct)
  case (1 u buf)
  show ?case
  proof (cases "0x80 \<le> u")
    case True
    then have big: "\<not> unat u < 128"
      by (simp add: word_le_nat_alt)
    have "Varuint32 u buf = Varuint32 (drop_bit 7 u) (WriteByte (ucast u OR 0x80) buf)"
      using True by (subst Varuint32.simps) simp
    also have "\<dots> = WriteByte (ucast u OR 0x80) buf @ leb128 (unat (drop_bit 7 u))"
      using True by (rule "1.IH")
    also have "\<dots> = buf @ leb128 (unat u)"
      using big by (subst (2) leb128.simps) (simp add: WriteByte_def continuation_byte unat_shr7)
    finally show ?thesis .
  next
    case False
    then have small: "unat u < 128"
      by (simp add: word_le_nat_alt)
    have "Varuint32 u buf = WriteByte (ucast u) buf"
      using False by (subst Varuint32.simps) simp
    also have "\<dots> = buf @ leb128 (unat u)"
      using small by (subst leb128.simps) (simp add: WriteByte_def)
    finally show ?thesis .
  qed
qed

lemma Varuint64_leb128: "Varuint64 u buf = buf @ leb128 (unat u)"
proof (induction u buf rule: Varuint64.induct)
  case (1 u buf)
  show ?case
  proof (cases "0x80 \<le> u")
    case True
    then have big: "\<not> unat u < 128"
      by (simp add: word_le_nat_alt)
    have "Varuint64 u buf = Varuint64 (drop_bit 7 u) (WriteByte (ucast u OR 0x80) buf)"
      using True by (subst Varuint64.simps) simp
    also have "\<dots> = WriteByte (ucast u OR 0x80) buf @ leb128 (unat (drop_bit 7 u))"
      using True by (rule "1.IH")
    also have "\<dots> = buf @ leb128 (unat u)"
      using big by (subst (2) leb128.simps) (simp add: WriteByte_def continuation_byte unat_shr7)
    finally show ?thesis .
  next
    case False
    then have small: "unat u < 128"
      by (simp add: word_le_nat_alt)
    have "Varuint64 u buf = WriteByte (ucast u) buf"
      using False by (subst Varuint64.simps) simp
    also have "\<dots> = buf @ leb128 (unat u)"
      using small by (subst leb128.simps) (simp add: WriteByte_def)
    finally show ?thesis .
  qed
qed

text \<open>The loop of each signed writer is the loop of the unsigned writer of its width.\<close>

lemma Varint32_loop_eq: "Varint32_loop u buf = Varuint32 u buf"
proof (induction u buf rule: Varuint32.induct)
  case (1 u buf)
  then show ?case
    by (subst Varint32_loop.simps, subst Varuint32.simps) simp
qed

lemma Varint64_loop_eq: "Varint64_loop u buf = Varuint64 u buf"
proof (induction u buf rule: Varuint64.induct)
  case (1 u buf)
  then show ?case
    by (subst Varint64_loop.simps, subst Varuint64.simps) simp
qed

lemma Varint32_loop_leb128: "Varint32_loop u buf = buf @ leb128 (unat u)"
  by (simp only: Varint32_loop_eq Varuint32_leb128)

lemma Varint64_loop_leb128: "Varint64_loop u buf = buf @ leb128 (unat u)"
  by (simp only: Varint64_loop_eq Varuint64_leb128)

lemma Varint32_zigzag: "Varint32 x buf = Varint32_loop (zigzag x) buf"
  by (simp add: Varint32_def zigzag_def word_sless_alt Let_def)

lemma Varint64_zigzag: "Varint64 x buf = Varint64_loop (zigzag x) buf"
  by (simp add: Varint64_def zigzag_def word_sless_alt Let_def)

text \<open>The bitwise transform is the usual zig-zag map on the signed value.\<close>

lemma unat_zigzag: "unat (zigzag (x::'a::len word)) = zigzag_int (sint x)"
proof -
  define k where "k = sint x"
  define m where "m = (if k < 0 then - 2 * k - 1 else 2 * k)"
  have pow: "(2::int) ^ LENGTH('a) = 2 * 2 ^ (LENGTH('a) - 1)"
    by (cases "LENGTH('a)") simp_all
  have lo: "- (2 ^ (LENGTH('a) - 1)) \<le> k" and hi: "k < 2 ^ (LENGTH('a) - 1)"
    unfolding k_def by (rule sint_ge, rule sint_lt)
  have range: "0 \<le> m" "m < 2 ^ LENGTH('a)"
    using lo hi unfolding m_def pow by (simp_all split: if_splits)
  have x: "x = word_of_int k"
    unfolding k_def by simp
  have "zigzag x = word_of_int m"
    unfolding zigzag_def m_def k_def[symmetric]
    by (simp add: x not_eq_complement push_bit_eq_mult)
  then have "uint (zigzag x) = m"
    using range by (simp add: uint_word_of_int)
  then have "unat (zigzag x) = nat m"
    by (simp only: flip: nat_uint_eq)
  then show ?thesis
    unfolding zigzag_int_def m_def k_def by auto
qed

text \<open>
  C4. \<^verbatim>\<open>Varint32\<close> and \<^verbatim>\<open>Varint64\<close> are zig-zag followed by LEB128: what they append to
  the sink is the seven-bits-per-byte encoding, with the high bit as continuation mark,
  of the value shifted left by one bit and complemented when it was negative. Encoding
  \<open>-1\<close> gives the single byte \<open>0x01\<close> and encoding \<open>0\<close> the single byte \<open>0x00\<close>, at
  both widths.
\<close>

theorem Varint_zigzag_leb128:
  "Varint32 x buf = buf @ leb128 (unat (zigzag x)) \<and>
   Varint64 y buf = buf @ leb128 (unat (zigzag y)) \<and>
   Varint32 (- 1) [] = [0x01] \<and> Varint32 0 [] = [0x00] \<and>
   Varint64 (- 1) [] = [0x01] \<and> Varint64 0 [] = [0x00]"
proof -
  have "Varint32 x buf = buf @ leb128 (unat (zigzag x))"
    by (simp only: Varint32_zigzag Varint32_loop_leb128)
  moreover have "Varint64 y buf = buf @ leb128 (unat (zigzag y))"
    by (simp only: Varint64_zigzag Varint64_loop_leb128)
  moreover have "Varint32 (- 1) [] = [0x01]" by code_simp
  moreover have "Varint32 0 [] = [0x00]" by code_simp
  moreover have "Varint64 (- 1) [] = [0x01]" by code_simp
  moreover have "Varint64 0 [] = [0x00]" by code_simp
  ultimately show ?thesis by blast
qed

theorem Varint_zigzag_leb128_witness:
  "Varint32 (- 300) [7] = [7] @ leb128 599 \<and>
   Varint64 (- 2) [7] = [7] @ leb128 3"
  using Varint_zigzag_leb128 [of "- 300" "[7]" "- 2"]
  by (simp add: zigzag_def)

section \<open>Item stacks: the layout of the output\<close>

lemma Varint32_bytes: "Varint32 x buf = buf @ leb128 (unat (zigzag x))"
  by (simp only: Varint32_zigzag Varint32_loop_leb128)

lemma Varint64_bytes: "Varint64 x buf = buf @ leb128 (unat (zigzag x))"
  by (simp only: Varint64_zigzag Varint64_loop_leb128)

lemma String_bytes:
  "String s buf = buf @ leb128 (unat (word_of_nat (length s) :: 32 word)) @ map of_char s"
  by (simp add: String_def Write_def Let_def Varuint32_leb128)

lemma fold_String: "fold String xs buf = buf @ concat (map (\<lambda>s. String s []) xs)"
proof (induction xs arbitrary: buf)
  case Nil
  show ?case by simp
next
  case (Cons s xs)
  have "fold String (s # xs) buf = fold String xs (String s buf)" by simp
  also have "\<dots> = String s buf @ concat (map (\<lambda>s. String s []) xs)" by (rule Cons.IH)
  also have "\<dots> = buf @ concat (map (\<lambda>s. String s []) (s # xs))"
    by (simp add: String_bytes)
  finally show ?case .
qed

lemma sint_count: "n < 2 ^ 31 \<Longrightarrow> sint (word_of_nat n :: 32 word) = int n"
proof -
  assume n: "n < 2 ^ 31"
  have "sint (word_of_nat n :: 32 word) = sint (word_of_int (int n) :: 32 word)"
    by simp
  also have "\<dots> = signed_take_bit 31 (int n)"
    by (simp only: sint_sbintrunc') simp
  also have "\<dots> = int n"
    using n by (intro signed_take_bit_int_eq_self) simp_all
  finally show ?thesis .
qed

lemma Varint32_count: "n < 2 ^ 31 \<Longrightarrow> Varint32 (word_of_nat n) buf = buf @ leb128 (2 * n)"
proof -
  assume n: "n < 2 ^ 31"
  have "nat (2 * int n) = 2 * n" by arith
  with n show ?thesis
    by (simp add: Varint32_bytes unat_zigzag sint_count zigzag_int_def)
qed

lemma Item_layout:
  assumes "NetworkID x \<noteq> 0"
  shows "Item ext x buf =
     (case Item_userData ext x of
        Inl err \<Rightarrow> Inl err
      | Inr ud \<Rightarrow>
          Inr (buf @ Varint32 (NetworkID x) [] @ Varint32 (Item_aux x) [] @ ud @
               string_seq Varint32 (CanBePlacedOn x) @ string_seq Varint32 (CanBreak x) @
               (if NetworkID x = shieldID then Varint64 0 [] else [])))"
proof -
  let ?b1 = "buf @ Varint32 (NetworkID x) [] @ Varint32 (Item_aux x) []"
  have b1: "Varint32 (Item_aux x) (Varint32 (NetworkID x) buf) = ?b1"
    by (simp add: Varint32_bytes)
  have ud: "(if length (NBTData x) \<noteq> 0 then
                   let userDataMarker = (- 1 :: 16 word);
                       userDataVer = (1 :: byte);
                       buf = Int16 ext userDataMarker ?b1;
                       buf = Uint8 userDataVer buf
                   in NBT ext (NBTData x) NetworkLittleEndian buf
                 else
                   let userDataMarker = (0 :: 16 word)
                   in Inr (Int16 ext userDataMarker ?b1))
     = (case Item_userData ext x of Inl err \<Rightarrow> Inl err | Inr ud \<Rightarrow> Inr (?b1 @ ud))"
    by (simp add: Item_userData_def Int16_def Uint8_def NBT_def Write_def WriteByte_def
        split: sum.splits)
  have tail: "\<And>b. (let placeOnLen = (word_of_nat (length (CanBePlacedOn x)) :: 32 word);
                   canBreak = (word_of_nat (length (CanBreak x)) :: 32 word);
                   buf = Varint32 placeOnLen b;
                   buf = fold String (CanBePlacedOn x) buf;
                   buf = Varint32 canBreak buf;
                   buf = fold String (CanBreak x) buf
               in if NetworkID x = shieldID then
                    let blockingTick = (0 :: 64 word)
                    in Inr (Varint64 blockingTick buf)
                  else Inr buf)
       = (Inr (b @ string_seq Varint32 (CanBePlacedOn x) @ string_seq Varint32 (CanBreak x) @
               (if NetworkID x = shieldID then Varint64 0 [] else [])) :: error + byte list)"
    by (simp add: Let_def fold_String string_seq_def Varint32_bytes Varint64_bytes)
  show ?thesis
    unfolding Item_def using assms
    apply (simp only: Let_def if_False b1 Item_aux_def[symmetric])
    apply (simp only: ud[unfolded Let_def] tail[unfolded Let_def])
    apply (simp split: sum.splits)
    done
qed

text \<open>
  C2. For every item stack whose \<^verbatim>\<open>NetworkID\<close> is \<open>0\<close>, \<^verbatim>\<open>Item\<close> appends exactly the
  byte \<open>0x00\<close>, the signed varint of \<open>0\<close>, and nothing else, whatever the other fields
  hold.
\<close>

theorem Item_empty_slot:
  assumes "NetworkID x = 0"
  shows "Item ext x buf = Inr (buf @ [0x00])"
proof -
  have "Varint32 0 buf = buf @ [0x00]"
    by (simp add: Varint32_def Varint32_loop.simps WriteByte_def)
  then show ?thesis
    using assms by (simp add: Item_def)
qed

theorem Item_empty_slot_witness:
  "Item example_env
     \<lparr>NetworkID = 0, MetadataValue = (3 :: 16 word), Count = (64 :: 16 word),
      NBTData = [(''k'', GoByte 7)], CanBePlacedOn = [''a''], CanBreak = [''bc'', ''d'']\<rparr>
     [9] = Inr [9, 0x00]"
  using Item_empty_slot [of "\<lparr>NetworkID = 0, MetadataValue = (3 :: 16 word), Count = (64 :: 16 word),
      NBTData = [(''k'', GoByte 7)], CanBePlacedOn = [''a''], CanBreak = [''bc'', ''d'']\<rparr>"
      example_env "[9]"]
  by simp

text \<open>
  C1 as stated fails: the length prefixes are not unsigned varints. A stack with one block name in
  \<^verbatim>\<open>CanBePlacedOn\<close> is encoded with the prefix byte \<open>0x02\<close>, the zig-zag form of \<open>1\<close>;
  an unsigned varint of the count \<open>1\<close> would be the byte \<open>0x01\<close>.
\<close>

theorem Item_unsigned_length_prefix_counterexample:
  "Item example_env
     \<lparr>NetworkID = 1, MetadataValue = (0 :: 16 word), Count = (1 :: 16 word), NBTData = [],
      CanBePlacedOn = [''a''], CanBreak = []\<rparr> []
   = Inr [0x02, 0x02, 0x00, 0x00, 0x02, 0x01, 0x61, 0x00] \<and>
   Item example_env
     \<lparr>NetworkID = 1, MetadataValue = (0 :: 16 word), Count = (1 :: 16 word), NBTData = [],
      CanBePlacedOn = [''a''], CanBreak = []\<rparr> []
   \<noteq> Inr (Varint32 1 [] @ Varint32 1 [] @ le16 0 @
          string_seq Varuint32 [''a''] @ string_seq Varuint32 []) \<and>
   string_seq Varuint32 [''a''] = [0x01, 0x01, 0x61] \<and>
   string_seq Varint32 [''a''] = [0x02, 0x01, 0x61]"
  by code_simp

text \<open>
  C1, as amended. For every item stack with \<^verbatim>\<open>NetworkID\<close> other than \<open>0\<close> whose nested
  record is absent or was encoded, \<^verbatim>\<open>Item\<close> writes the \<^verbatim>\<open>CanBePlacedOn\<close> sequence and then
  the \<^verbatim>\<open>CanBreak\<close> sequence, each prefixed with its length as a signed zig-zag varint:
  the bytes of each prefix are those \<^verbatim>\<open>Varint32\<close> writes for \<^verbatim>\<open>int32\<close> of the number of
  elements, which for fewer than \<open>2 ^ 31\<close> elements is the LEB128 encoding of twice that
  number.
\<close>

theorem Item_signed_length_prefix:
  assumes "NetworkID x \<noteq> 0" and "Item_userData ext x = Inr ud"
  shows "Item ext x buf =
           Inr (buf @ Varint32 (NetworkID x) [] @ Varint32 (Item_aux x) [] @ ud @
                string_seq Varint32 (CanBePlacedOn x) @
                string_seq Varint32 (CanBreak x) @
                (if NetworkID x = shieldID then Varint64 0 [] else [])) \<and>
         (\<forall>xs. length xs < 2 ^ 31 \<longrightarrow>
            string_seq Varint32 xs =
              leb128 (2 * length xs) @ concat (map (\<lambda>s. String s []) xs))"
  using assms by (simp add: Item_layout string_seq_def Varint32_count)

theorem Item_signed_length_prefix_witness:
  "Item example_env
     \<lparr>NetworkID = 1, MetadataValue = (0 :: 16 word), Count = (1 :: 16 word), NBTData = [],
      CanBePlacedOn = [''a''], CanBreak = []\<rparr> [] =
   Inr [0x02, 0x02, 0x00, 0x00, 0x02, 0x01, 0x61, 0x00] \<and>
   string_seq Varint32 [''a''] = leb128 2 @ [0x01, 0x61]"
proof -
  let ?x = "\<lparr>NetworkID = 1, MetadataValue = (0 :: 16 word), Count = (1 :: 16 word), NBTData = [],
      CanBePlacedOn = [''a''], CanBreak = []\<rparr>"
  have id: "NetworkID ?x \<noteq> 0" by simp
  have ud: "Item_userData example_env ?x = Inr [0x00, 0x00]" by code_simp
  have bytes: "[] @ Varint32 (NetworkID ?x) [] @ Varint32 (Item_aux ?x) [] @ [0x00, 0x00] @
          string_seq Varint32 (CanBePlacedOn ?x) @
          string_seq Varint32 (CanBreak ?x) @
          (if NetworkID ?x = shieldID then Varint64 0 [] else [])
        = [0x02, 0x02, 0x00, 0x00, 0x02, 0x01, 0x61, 0x00]"
    by code_simp
  have len: "length [''a''] < (2 :: nat) ^ 31" by simp
  have str: "concat (map (\<lambda>s. String s []) [''a'']) = [0x01, 0x61]" by code_simp
  note T = Item_signed_length_prefix [OF id ud, of "[]"]
  from T have "Item example_env ?x [] = Inr [0x02, 0x02, 0x00, 0x00, 0x02, 0x01, 0x61, 0x00]"
    unfolding bytes by (rule conjunct1)
  moreover from T len have "string_seq Varint32 [''a''] =
      leb128 (2 * length [''a'']) @ concat (map (\<lambda>s. String s []) [''a''])"
    by blast
  ultimately show ?thesis
    unfolding str by simp
qed

text \<open>
  C3. For every item stack whose \<^verbatim>\<open>NetworkID\<close> is the shield identifier \<open>513\<close>, the
  output ends with one more field after the \<^verbatim>\<open>CanBreak\<close> sequence: the byte \<open>0x00\<close>, which
  is the signed varint64 encoding of the tick, written although the tick is zero, so
  that the output is not the layout of fields 1 to 5 alone. For every other
  \<^verbatim>\<open>NetworkID\<close> that is not \<open>0\<close> nothing follows the \<^verbatim>\<open>CanBreak\<close> sequence.
\<close>

theorem Item_shield_trailing_tick:
  assumes "NetworkID x \<noteq> 0" and "Item_userData ext x = Inr ud"
  shows "(NetworkID x = 513 \<longrightarrow>
            Item ext x buf = Inr (buf @ Item_fields x ud @ [0x00]) \<and>
            Item ext x buf \<noteq> Inr (buf @ Item_fields x ud)) \<and>
         (NetworkID x \<noteq> 513 \<longrightarrow>
            Item ext x buf = Inr (buf @ Item_fields x ud)) \<and>
         leb128 (unat (zigzag (0 :: 64 word))) = [0x00]"
proof -
  have tick: "Varint64 0 [] = [0x00]"
    by code_simp
  have shield: "Item ext x buf = Inr (buf @ Item_fields x ud @ [0x00])"
    if "NetworkID x = 513"
    using that assms tick by (simp add: Item_layout Item_fields_def shieldID_def)
  have other: "Item ext x buf = Inr (buf @ Item_fields x ud)"
    if "NetworkID x \<noteq> 513"
    using that assms by (simp add: Item_layout Item_fields_def shieldID_def)
  have enc: "leb128 (unat (zigzag (0 :: 64 word))) = [0x00]"
    by (simp add: zigzag_def leb128.simps)
  from shield other enc show ?thesis
    by simp
qed

theorem Item_shield_trailing_tick_witness:
  "Item example_env
     \<lparr>NetworkID = 513, MetadataValue = (3 :: 16 word), Count = (1 :: 16 word),
      NBTData = [(''k'', GoByte 7)], CanBePlacedOn = [''a''], CanBreak = [''bc'', ''d'']\<rparr> []
   = Inr [0x82, 0x08, 0x82, 0x0c, 0xff, 0xff, 0x01, 0x0a, 0x00, 0x01, 0x01, 0x6b, 0x07, 0x00,
          0x02, 0x01, 0x61, 0x04, 0x02, 0x62, 0x63, 0x01, 0x64, 0x00] \<and>
   Item example_env
     \<lparr>NetworkID = 512, MetadataValue = (3 :: 16 word), Count = (1 :: 16 word),
      NBTData = [(''k'', GoByte 7)], CanBePlacedOn = [''a''], CanBreak = [''bc'', ''d'']\<rparr> []
   = Inr [0x80, 0x08, 0x82, 0x0c, 0xff, 0xff, 0x01, 0x0a, 0x00, 0x01, 0x01, 0x6b, 0x07, 0x00,
          0x02, 0x01, 0x61, 0x04, 0x02, 0x62, 0x63, 0x01, 0x64]"
proof -
  let ?x = "\<lparr>NetworkID = 513, MetadataValue = (3 :: 16 word), Count = (1 :: 16 word),
      NBTData = [(''k'', GoByte 7)], CanBePlacedOn = [''a''], CanBreak = [''bc'', ''d'']\<rparr>"
  let ?y = "\<lparr>NetworkID = 512, MetadataValue = (3 :: 16 word), Count = (1 :: 16 word),
      NBTData = [(''k'', GoByte 7)], CanBePlacedOn = [''a''], CanBreak = [''bc'', ''d'']\<rparr>"
  let ?ud = "[0xff, 0xff, 0x01, 0x0a, 0x00, 0x01, 0x01, 0x6b, 0x07, 0x00] :: byte list"
  have idx: "NetworkID ?x \<noteq> 0" "NetworkID ?x = 513" by simp_all
  have idy: "NetworkID ?y \<noteq> 0" "NetworkID ?y \<noteq> 513" by simp_all
  have udx: "Item_userData example_env ?x = Inr ?ud" by code_simp
  have udy: "Item_userData example_env ?y = Inr ?ud" by code_simp
  have fx: "Item_fields ?x ?ud =
      [0x82, 0x08, 0x82, 0x0c, 0xff, 0xff, 0x01, 0x0a, 0x00, 0x01, 0x01, 0x6b, 0x07, 0x00,
       0x02, 0x01, 0x61, 0x04, 0x02, 0x62, 0x63, 0x01, 0x64]" by code_simp
  have fy: "Item_fields ?y ?ud =
      [0x80, 0x08, 0x82, 0x0c, 0xff, 0xff, 0x01, 0x0a, 0x00, 0x01, 0x01, 0x6b, 0x07, 0x00,
       0x02, 0x01, 0x61, 0x04, 0x02, 0x62, 0x63, 0x01, 0x64]" by code_simp
  show ?thesis
    using Item_shield_trailing_tick [OF idx(1) udx, of "[]"]
      Item_shield_trailing_tick [OF idy(1) udy, of "[]"] idx(2) idy(2)
    unfolding fx fy by simp
qed

text \<open>
  C8. For every item stack whose \<^verbatim>\<open>NetworkID\<close> is \<open>513\<close>, the blocking-tick field that
  ends the output is the encoding of \<open>0\<close>, the single byte \<open>0x00\<close>, whatever the stack
  holds: the value is a local of \<^verbatim>\<open>Item\<close> and no field of the stack.
\<close>

theorem Item_blocking_tick_zero:
  assumes "NetworkID x = 513" and "Item_userData ext x = Inr ud"
  shows "Item ext x buf = Inr (buf @ Item_fields x ud @ [0x00])"
proof -
  have "Varint64 0 [] = [0x00]" by code_simp
  then show ?thesis
    using assms by (simp add: Item_layout Item_fields_def shieldID_def)
qed

theorem Item_blocking_tick_zero_witness:
  "Item example_env
     \<lparr>NetworkID = 513, MetadataValue = (3 :: 16 word), Count = (1 :: 16 word),
      NBTData = [(''k'', GoByte 7)], CanBePlacedOn = [''a''], CanBreak = [''bc'', ''d'']\<rparr> [5]
   = Inr [0x05, 0x82, 0x08, 0x82, 0x0c, 0xff, 0xff, 0x01, 0x0a, 0x00, 0x01, 0x01, 0x6b, 0x07, 0x00,
          0x02, 0x01, 0x61, 0x04, 0x02, 0x62, 0x63, 0x01, 0x64, 0x00]"
proof -
  let ?x = "\<lparr>NetworkID = 513, MetadataValue = (3 :: 16 word), Count = (1 :: 16 word),
      NBTData = [(''k'', GoByte 7)], CanBePlacedOn = [''a''], CanBreak = [''bc'', ''d'']\<rparr>"
  let ?ud = "[0xff, 0xff, 0x01, 0x0a, 0x00, 0x01, 0x01, 0x6b, 0x07, 0x00] :: byte list"
  have id: "NetworkID ?x = 513" by simp
  have ud: "Item_userData example_env ?x = Inr ?ud" by code_simp
  have f: "Item_fields ?x ?ud =
      [0x82, 0x08, 0x82, 0x0c, 0xff, 0xff, 0x01, 0x0a, 0x00, 0x01, 0x01, 0x6b, 0x07, 0x00,
       0x02, 0x01, 0x61, 0x04, 0x02, 0x62, 0x63, 0x01, 0x64]" by code_simp
  show ?thesis
    using Item_blocking_tick_zero [OF id ud, of "[5]"] unfolding f by simp
qed

text \<open>
  C5. For every item stack with \<^verbatim>\<open>NetworkID\<close> other than \<open>0\<close>, the field after the aux
  word is: when the nested record is present, the 16-bit value \<open>-1\<close>, the version byte
  \<open>1\<close> and the record as the tree encoder writes it in its network little-endian
  variant (or the panic with the encoder's error); when it is absent, the 16-bit value
  \<open>0\<close> and nothing more.
\<close>

theorem Item_nested_record_marker:
  assumes "NetworkID x \<noteq> 0"
  shows "Item ext x buf =
     (if NBTData x \<noteq> [] then
        (case nbt_Encode ext NetworkLittleEndian (GoMap (NBTData x)) of
           Inl err \<Rightarrow> Inl err
         | Inr record_bytes \<Rightarrow>
             Inr (buf @ Varint32 (NetworkID x) [] @ Varint32 (Item_aux x) [] @
                  Int16_bytes ext (- 1) @ [0x01] @ record_bytes @ Item_tail x))
      else
        Inr (buf @ Varint32 (NetworkID x) [] @ Varint32 (Item_aux x) [] @
             Int16_bytes ext 0 @ Item_tail x))"
  using assms
  by (simp add: Item_layout Item_userData_def Item_tail_def split: sum.splits)

theorem Item_nested_record_marker_witness:
  "Item example_env
     \<lparr>NetworkID = 513, MetadataValue = (3 :: 16 word), Count = (1 :: 16 word),
      NBTData = [(''k'', GoByte 7)], CanBePlacedOn = [''a''], CanBreak = [''bc'', ''d'']\<rparr> []
   = Inr ([0x82, 0x08, 0x82, 0x0c] @ [0xff, 0xff] @ [0x01] @
          [0x0a, 0x00, 0x01, 0x01, 0x6b, 0x07, 0x00] @
          [0x02, 0x01, 0x61, 0x04, 0x02, 0x62, 0x63, 0x01, 0x64, 0x00]) \<and>
   Item example_env
     \<lparr>NetworkID = 513, MetadataValue = (3 :: 16 word), Count = (1 :: 16 word),
      NBTData = [], CanBePlacedOn = [''a''], CanBreak = [''bc'', ''d'']\<rparr> []
   = Inr ([0x82, 0x08, 0x82, 0x0c] @ [0x00, 0x00] @
          [0x02, 0x01, 0x61, 0x04, 0x02, 0x62, 0x63, 0x01, 0x64, 0x00]) \<and>
   Item example_env
     \<lparr>NetworkID = 513, MetadataValue = (3 :: 16 word), Count = (1 :: 16 word),
      NBTData = [(''k'', GoOther ''chan int'')], CanBePlacedOn = [], CanBreak = []\<rparr> []
   = Inl (Error ''unsupported'')"
proof -
  let ?x = "\<lparr>NetworkID = 513, MetadataValue = (3 :: 16 word), Count = (1 :: 16 word),
      NBTData = [(''k'', GoByte 7)], CanBePlacedOn = [''a''], CanBreak = [''bc'', ''d'']\<rparr>"
  let ?y = "\<lparr>NetworkID = 513, MetadataValue = (3 :: 16 word), Count = (1 :: 16 word),
      NBTData = [], CanBePlacedOn = [''a''], CanBreak = [''bc'', ''d'']\<rparr>"
  let ?z = "\<lparr>NetworkID = 513, MetadataValue = (3 :: 16 word), Count = (1 :: 16 word),
      NBTData = [(''k'', GoOther ''chan int'')], CanBePlacedOn = [], CanBreak = []\<rparr>"
  have id: "NetworkID ?x \<noteq> 0" "NetworkID ?y \<noteq> 0" "NetworkID ?z \<noteq> 0" by simp_all
  have hd: "Varint32 513 [] = [0x82, 0x08]" "Varint32 (Item_aux ?x) [] = [0x82, 0x0c]"
    "Varint32 (Item_aux ?y) [] = [0x82, 0x0c]"
    by code_simp+
  have tl: "Item_tail ?x = [0x02, 0x01, 0x61, 0x04, 0x02, 0x62, 0x63, 0x01, 0x64, 0x00]"
    "Item_tail ?y = [0x02, 0x01, 0x61, 0x04, 0x02, 0x62, 0x63, 0x01, 0x64, 0x00]"
    by code_simp+
  have enc: "example_Encode NetworkLittleEndian (GoMap [(''k'', GoByte 7)]) =
      Inr [0x0a, 0x00, 0x01, 0x01, 0x6b, 0x07, 0x00]"
    "example_Encode NetworkLittleEndian (GoMap [(''k'', GoOther ''chan int'')]) =
      Inl (Error ''unsupported'')"
    by code_simp+
  have i16: "le16 (- 1) = [0xff, 0xff]" "le16 0 = [0x00, 0x00]" by code_simp+
  show ?thesis
    using Item_nested_record_marker [OF id(1), of example_env "[]"]
      Item_nested_record_marker [OF id(2), of example_env "[]"]
      Item_nested_record_marker [OF id(3), of example_env "[]"]
    by (simp add: example_env_def hd tl enc i16)
qed

section \<open>Block positions with an unsigned height\<close>

lemma uint_as_sint_mod: "uint (y :: 'a::len word) = sint y mod 2 ^ LENGTH('a)"
proof -
  have "uint y = uint (word_of_int (sint y) :: 'a word)" by simp
  also have "\<dots> = sint y mod 2 ^ LENGTH('a)" by (simp only: uint_word_of_int)
  finally show ?thesis .
qed

text \<open>
  C9. For every block position with a negative \<open>Y\<close>, \<^verbatim>\<open>UBlockPos\<close> does not fail: it
  writes \<open>X\<close> as a signed varint, then the unsigned varint of \<open>Y\<close> modulo \<open>2 ^ 32\<close>,
  which is \<open>Y + 2 ^ 32\<close>, then \<open>Z\<close> as a signed varint.
\<close>

theorem UBlockPos_negative_Y:
  assumes "sint y < 0"
  shows "UBlockPos (x, y, z) buf =
           buf @ Varint32 x [] @ leb128 (nat (sint y mod 2 ^ 32)) @ Varint32 z [] \<and>
         sint y mod 2 ^ 32 = sint y + 2 ^ 32"
proof -
  have "unat y = nat (uint y)" by simp
  then have y: "unat y = nat (sint y mod 2 ^ 32)"
    by (simp only: uint_as_sint_mod [of y]) simp
  have lo: "- (2 ^ 31) \<le> sint y"
    using sint_ge [of y] by simp
  have "sint y mod 2 ^ 32 = (sint y + 2 ^ 32) mod 2 ^ 32"
    by simp
  also have "\<dots> = sint y + 2 ^ 32"
    using assms lo by (intro mod_pos_pos_trivial) simp_all
  finally have wrap: "sint y mod 2 ^ 32 = sint y + 2 ^ 32" .
  have "UBlockPos (x, y, z) buf = buf @ Varint32 x [] @ leb128 (unat y) @ Varint32 z []"
    by (simp add: UBlockPos_def Let_def Varint32_bytes Varuint32_leb128)
  with y wrap show ?thesis by simp
qed

theorem UBlockPos_negative_Y_witness:
  "UBlockPos (1, - 1, 2) [] = [0x02] @ [0xff, 0xff, 0xff, 0xff, 0x0f] @ [0x04]"
proof -
  have neg: "sint (- 1 :: 32 word) < 0" by simp
  have v: "Varint32 1 [] = [0x02]" "Varint32 2 [] = [0x04]" by code_simp+
  have l: "leb128 (nat (sint (- 1 :: 32 word) mod 2 ^ 32)) = [0xff, 0xff, 0xff, 0xff, 0x0f]"
    by (simp add: leb128.simps)
  show ?thesis
    using UBlockPos_negative_Y [OF neg, of 1 2 "[]"] unfolding v l by simp
qed

section \<open>Entity metadata: a value of an unknown type\<close>

lemma EntityMetadata_body_unknown:
  "EntityMetadata_body ext key (GoOther ty) buf = UnknownEnumOption ty ''entity metadata''"
  by (simp add: EntityMetadata_body_def)

lemma EntityMetadata_loop_append:
  "EntityMetadata_loop ext (pre @ rest) buf =
     (case EntityMetadata_loop ext pre buf of
        Inl err \<Rightarrow> Inl err
      | Inr b \<Rightarrow> EntityMetadata_loop ext rest b)"
  by (induction ext pre buf rule: EntityMetadata_loop.induct) (simp_all split: sum.splits)

lemma EntityMetadata_loop_panics:
  assumes "(key, val) \<in> set x" and "\<not> known_variant val"
  shows "\<exists>err. EntityMetadata_loop ext x buf = Inl err"
  using assms
proof (induction x arbitrary: buf)
  case Nil
  then show ?case by simp
next
  case (Cons e rest)
  obtain k v where e: "e = (k, v)" by (cases e)
  show ?case
  proof (cases "EntityMetadata_body ext k v buf")
    case (Inl err)
    then show ?thesis by (simp add: e)
  next
    case (Inr b)
    have "(key, val) \<noteq> (k, v)"
    proof
      assume "(key, val) = (k, v)"
      with Cons.prems(2) obtain ty where "v = GoOther ty"
        by (cases v) (simp_all add: known_variant_def)
      with Inr show False
        by (simp add: EntityMetadata_body_unknown UnknownEnumOption_def panicf_def)
    qed
    with Cons.prems(1) have "(key, val) \<in> set rest" unfolding e by auto
    then have "\<exists>err. EntityMetadata_loop ext rest b = Inl err"
      using Cons.prems(2) by (rule Cons.IH)
    with Inr show ?thesis by (simp add: e)
  qed
qed

text \<open>
  C7. For every attribute map with at least one value whose dynamic type is none of
  the nine known ones, \<^verbatim>\<open>EntityMetadata\<close> panics, in whatever order the entries are
  visited. When the entries visited before such a value were written, the panic is the
  unknown-enum-option error for that value: the entry is not skipped and no payload is
  written for it.
\<close>

theorem EntityMetadata_unknown_variant_panics:
  assumes "\<exists>(key, val) \<in> set x. \<not> known_variant val"
  shows "(\<exists>err. EntityMetadata ext x buf = Inl err) \<and>
         (\<forall>pre key ty post b.
            x = pre @ (key, GoOther ty) # post \<and>
            EntityMetadata_loop ext pre (Varuint32 (word_of_nat (length x)) buf) = Inr b \<longrightarrow>
            EntityMetadata ext x buf = UnknownEnumOption ty ''entity metadata'')"
proof
  from assms obtain key val where "(key, val) \<in> set x" "\<not> known_variant val"
    by auto
  then show "\<exists>err. EntityMetadata ext x buf = Inl err"
    unfolding EntityMetadata_def Let_def by (rule EntityMetadata_loop_panics)
next
  show "\<forall>pre key ty post b.
            x = pre @ (key, GoOther ty) # post \<and>
            EntityMetadata_loop ext pre (Varuint32 (word_of_nat (length x)) buf) = Inr b \<longrightarrow>
            EntityMetadata ext x buf = UnknownEnumOption ty ''entity metadata''"
  proof (intro allI impI, elim conjE)
    fix pre key ty post b
    assume x: "x = pre @ (key, GoOther ty) # post"
      and pre: "EntityMetadata_loop ext pre (Varuint32 (word_of_nat (length x)) buf) = Inr b"
    define buf0 where "buf0 = Varuint32 (word_of_nat (length x)) buf"
    have "EntityMetadata ext x buf = EntityMetadata_loop ext x buf0"
      unfolding EntityMetadata_def Let_def buf0_def ..
    also have "\<dots> = EntityMetadata_loop ext (pre @ (key, GoOther ty) # post) buf0"
      by (simp only: x)
    also have "\<dots> = EntityMetadata_loop ext ((key, GoOther ty) # post) b"
      using pre unfolding buf0_def [symmetric] by (simp only: EntityMetadata_loop_append sum.case)
    also have "\<dots> = UnknownEnumOption ty ''entity metadata''"
      by (simp add: EntityMetadata_body_unknown UnknownEnumOption_def panicf_def)
    finally show "EntityMetadata ext x buf = UnknownEnumOption ty ''entity metadata''" .
  qed
qed

theorem EntityMetadata_unknown_variant_panics_witness:
  "(\<exists>(key, val) \<in> set [(1, GoByte 5), (2, GoOther ''int''), (3, GoString ''x'')].
      \<not> known_variant val) \<and>
   EntityMetadata example_env [(1, GoByte 5), (2, GoOther ''int''), (3, GoString ''x'')] [] =
     Inl (Error (''unknown value '' @ [CHR 0x27] @ ''int'' @ [CHR 0x27] @
                 '' for enum type '' @ [CHR 0x27] @ ''entity metadata'' @ [CHR 0x27]))"
proof -
  let ?x = "[(1, GoByte 5), (2, GoOther ''int''), (3, GoString ''x'')] :: (32 word \<times> go_value) list"
  have h: "\<exists>(key, val) \<in> set ?x. \<not> known_variant val"
    by (simp add: known_variant_def)
  have split: "?x = [(1, GoByte 5)] @ (2, GoOther ''int'') # [(3, GoString ''x'')]"
    by simp
  have pre: "EntityMetadata_loop example_env [(1, GoByte 5)]
      (Varuint32 (word_of_nat (length ?x)) []) = Inr [3, 1, 0, 5]"
    by code_simp
  from EntityMetadata_unknown_variant_panics [OF h, of example_env "[]"]
  have "EntityMetadata example_env ?x [] = UnknownEnumOption ''int'' ''entity metadata''"
    using split pre by blast
  with h show ?thesis
    by (simp add: UnknownEnumOption_def panicf_def)
qed

section \<open>The identifier: byte order and aliasing\<close>

text \<open>\<^verbatim>\<open>append\<close> writes into the array of its first argument when the capacity allows.\<close>

lemma go_append_in_place:
  "go_append [[0, 1, 2, 3]] (slice_array 0 4 0 2) [9, 8] =
     ([[0, 1, 9, 8]], \<lparr>s_arr = 0, s_off = 0, s_len = 4, s_cap = 4\<rparr>)"
  by (simp add: go_append_def slice_array_def)

lemma UUID_symbolic:
  assumes "x < length h"
    and "h ! x = [b0, b1, b2, b3, b4, b5, b6, b7, b8, b9, b10, b11, b12, b13, b14, b15]"
  shows "UUID x h buf =
     Inr (h @ [[b7, b6, b5, b4, b3, b2, b1, b0, b15, b14, b13, b12, b11, b10, b9, b8]],
          buf @ [b7, b6, b5, b4, b3, b2, b1, b0, b15, b14, b13, b12, b11, b10, b9, b8])"
proof -
  let ?b = "\<lparr>s_arr = length h, s_off = 0, s_len = 16, s_cap = 16\<rparr>"
  let ?a0 = "[b8, b9, b10, b11, b12, b13, b14, b15, b0, b1, b2, b3, b4, b5, b6, b7]"
  have app: "go_append h (slice_array x 16 8 16) (slice_elems h (slice_array x 16 0 8)) =
      (h @ [?a0], ?b)"
    by (simp add: go_append_def slice_array_def slice_elems_def assms(2))
  have len: "length ?a0 = 16" by simp
  have loop: "UUID_loop 0 15 ?b (h @ [?a0]) =
      Inr (h @ [[b7, b6, b5, b4, b3, b2, b1, b0, b15, b14, b13, b12, b11, b10, b9, b8]])"
    by (simp add: UUID_loop.simps index_get_def index_set_def)
  have out: "slice_elems (h @ [[b7, b6, b5, b4, b3, b2, b1, b0, b15, b14, b13, b12, b11, b10, b9, b8]]) ?b
      = [b7, b6, b5, b4, b3, b2, b1, b0, b15, b14, b13, b12, b11, b10, b9, b8]"
    by (simp add: slice_elems_def)
  show ?thesis
    unfolding UUID_def app prod.case loop sum.case out Write_def ..
qed

lemma list16:
  assumes "length (u :: 'a list) = 16"
  shows "u = [u ! 0, u ! 1, u ! 2, u ! 3, u ! 4, u ! 5, u ! 6, u ! 7,
              u ! 8, u ! 9, u ! 10, u ! 11, u ! 12, u ! 13, u ! 14, u ! 15]"
proof -
  have idx: "[0..<16] = [0, 1, 2, 3, 4, 5, 6, 7, 8, 9, 10, 11, 12, 13, 14, 15 :: nat]"
    by code_simp
  have "u = map ((!) u) [0..<16]"
    using assms map_nth [of u] by simp
  then show ?thesis
    unfolding idx by simp
qed

lemma wire_order_16:
  "wire_order [b0, b1, b2, b3, b4, b5, b6, b7, b8, b9, b10, b11, b12, b13, b14, b15] =
     [b7, b6, b5, b4, b3, b2, b1, b0, b15, b14, b13, b12, b11, b10, b9, b8]"
  by (simp add: wire_order_def)

lemma UUID_general:
  assumes "x < length h" and "length (h ! x) = 16"
  shows "UUID x h buf = Inr (h @ [wire_order (h ! x)], buf @ wire_order (h ! x))"
proof -
  note u = list16 [OF assms(2)]
  have w: "wire_order (h ! x) =
      [h ! x ! 7, h ! x ! 6, h ! x ! 5, h ! x ! 4, h ! x ! 3, h ! x ! 2, h ! x ! 1, h ! x ! 0,
       h ! x ! 15, h ! x ! 14, h ! x ! 13, h ! x ! 12, h ! x ! 11, h ! x ! 10, h ! x ! 9, h ! x ! 8]"
    by (subst u) (rule wire_order_16)
  show ?thesis
    unfolding w by (rule UUID_symbolic [OF assms(1) u])
qed

lemma wire_order_nth:
  assumes "length u = 16" and "i < 16"
  shows "wire_order u ! i = (if i < 8 then u ! (7 - i) else u ! (23 - i))"
proof (cases "i < 8")
  case True
  with assms show ?thesis
    by (simp add: wire_order_def nth_append rev_nth)
next
  case False
  with assms have "8 - Suc (i - 8) + 8 = 23 - i"
    by arith
  with False assms show ?thesis
    by (simp add: wire_order_def nth_append rev_nth)
qed

text \<open>
  C6. For every 16-byte identifier \<open>u\<close>, \<^verbatim>\<open>UUID\<close> appends exactly 16 bytes to the sink: the
  two halves of \<open>u\<close> swapped and the whole reversed. Byte \<open>i\<close> of the output is byte
  \<open>7 - i\<close> of \<open>u\<close> for \<open>i\<close> from 0 to 7 and byte \<open>23 - i\<close> for \<open>i\<close> from 8 to 15.
\<close>

theorem UUID_wire_order:
  assumes "x < length h" and "length (h ! x) = 16"
  shows "\<exists>h'. UUID x h buf = Inr (h', buf @ rev (drop 8 (h ! x) @ take 8 (h ! x))) \<and>
           length (rev (drop 8 (h ! x) @ take 8 (h ! x))) = 16 \<and>
           (\<forall>i<16. rev (drop 8 (h ! x) @ take 8 (h ! x)) ! i =
                     (if i < 8 then (h ! x) ! (7 - i) else (h ! x) ! (23 - i)))"
proof -
  have "UUID x h buf = Inr (h @ [wire_order (h ! x)], buf @ wire_order (h ! x))"
    using assms by (rule UUID_general)
  moreover have "length (wire_order (h ! x)) = 16"
    using assms(2) by (simp add: wire_order_def)
  moreover have "\<forall>i<16. wire_order (h ! x) ! i =
      (if i < 8 then (h ! x) ! (7 - i) else (h ! x) ! (23 - i))"
    using assms(2) by (simp add: wire_order_nth)
  ultimately show ?thesis
    unfolding wire_order_def by blast
qed

theorem UUID_wire_order_witness:
  "(case UUID 1 [[], [0, 1, 2, 3, 4, 5, 6, 7, 8, 9, 10, 11, 12, 13, 14, 15]] [0xaa] of
      Inl err \<Rightarrow> None
    | Inr (h', out) \<Rightarrow> Some out) =
   Some [0xaa, 7, 6, 5, 4, 3, 2, 1, 0, 15, 14, 13, 12, 11, 10, 9, 8]"
proof -
  let ?h = "[[], [0, 1, 2, 3, 4, 5, 6, 7, 8, 9, 10, 11, 12, 13, 14, 15]] :: heap"
  have a: "1 < length ?h" and l: "length (?h ! 1) = 16" by simp_all
  from UUID_wire_order [OF a l, of "[0xaa]"] obtain h' where
    "UUID 1 ?h [0xaa] = Inr (h', [0xaa] @ rev (drop 8 (?h ! 1) @ take 8 (?h ! 1)))"
    by blast
  then show ?thesis by simp
qed

text \<open>
  C10. \<^verbatim>\<open>UUID\<close> leaves the identifier as it was: the swap and the reversal happen in a
  newly allocated array, and after the call every array of the store before the call,
  the identifier's among them, holds the bytes it held.
\<close>

theorem UUID_input_unchanged:
  assumes "x < length h" and "length (h ! x) = 16"
  shows "\<exists>fresh out. UUID x h buf = Inr (h @ [fresh], out) \<and>
           (h @ [fresh]) ! x = h ! x \<and>
           (\<forall>a<length h. (h @ [fresh]) ! a = h ! a)"
proof -
  have "UUID x h buf = Inr (h @ [wire_order (h ! x)], buf @ wire_order (h ! x))"
    using assms by (rule UUID_general)
  moreover have "\<forall>a<length h. (h @ [wire_order (h ! x)]) ! a = h ! a"
    by (simp add: nth_append)
  ultimately show ?thesis
    using assms(1) by blast
qed

theorem UUID_input_unchanged_witness:
  "(case UUID 1 [[], [0, 1, 2, 3, 4, 5, 6, 7, 8, 9, 10, 11, 12, 13, 14, 15]] [0xaa] of
      Inl err \<Rightarrow> None
    | Inr (h', out) \<Rightarrow> Some (h' ! 1)) =
   Some [0, 1, 2, 3, 4, 5, 6, 7, 8, 9, 10, 11, 12, 13, 14, 15]"
proof -
  let ?h = "[[], [0, 1, 2, 3, 4, 5, 6, 7, 8, 9, 10, 11, 12, 13, 14, 15]] :: heap"
  have a: "1 < length ?h" and l: "length (?h ! 1) = 16" by simp_all
  from UUID_input_unchanged [OF a l, of "[0xaa]"] obtain fresh out where
    "UUID 1 ?h [0xaa] = Inr (?h @ [fresh], out)" and "(?h @ [fresh]) ! 1 = ?h ! 1"
    by blast
  then show ?thesis by simp
qed

end
